theory Spec2Isabelle
  imports Main
begin

section \<open>The transaction observer of web3-core-method\<close>

text \<open>
  A shallow embedding of \<^verbatim>\<open>packages/web3-core-method/src/observers/TransactionObserver.js\<close>.

  The class keeps its confirmation state in instance fields and mutates them inside the
  callback of the newHeads subscription (socket providers) or of a one-second interval
  timer (HTTP and custom providers). One run of that callback is one observation cycle.
  The model passes the fields explicitly: a cycle takes the tracker and what the
  collaborators answered in that cycle, and returns the updated tracker together with
  the calls the cycle made, in the order the source makes them. Every \<^verbatim>\<open>throw\<close>
  and rejected \<^verbatim>\<open>await\<close> is a branch that ends in the \<^verbatim>\<open>catch\<close> block.

  A cycle function is one callback from its start to its end, with the answers of its
  awaited fetches as arguments. The source starts callbacks from \<^verbatim>\<open>setInterval(async ...)\<close>
  and from an async subscription callback and keeps no in-flight guard, so on the real
  scheduler a callback can start, or settle, while another one is still awaiting. The
  runs defined below deliver the callbacks one after another; statements about runs are
  statements about that serial delivery and say so.
\<close>

subsection \<open>Data\<close>

text \<open>A block as returned by eth_getBlockByHash or announced by newHeads; only the
  three fields the observer reads.\<close>

record block =
  hash :: string
  parentHash :: string
  number :: int

text \<open>A transaction receipt; the observer reads \<^verbatim>\<open>receipt.blockHash\<close> only.\<close>

record receipt =
  blockHash :: string

text \<open>
  The errors handed to \<^verbatim>\<open>observer.error\<close>: the \<^verbatim>\<open>new Error('Timeout exceeded ...')\<close>
  object the observer creates itself, a \<^verbatim>\<open>TypeError\<close> of the JavaScript runtime
  (property access on \<^verbatim>\<open>null\<close>, call of a non-function), and an error thrown by a
  collaborator (the subscription's \<^verbatim>\<open>newHeadError\<close>, a rejected \<^verbatim>\<open>execute()\<close>), carried by its
  message.
\<close>

datatype error = Timeout | TypeError | Thrown string

text \<open>
  The calls a cycle makes on its collaborators and on the RxJS observer.
  \<^verbatim>\<open>ObsError e r c k\<close> is \<^verbatim>\<open>observer.error(e, r, confirmations, confirmationChecks)\<close>;
  its receipt argument is \<open>None\<close> for the falsy values of the source (\<^verbatim>\<open>false\<close> in the
  catch blocks, a \<^verbatim>\<open>null\<close> receipt at a timeout).
\<close>

datatype event =
    FetchReceipt string
  | FetchBlock string
  | Unsubscribe
  | ClearInterval
  | ObsNext receipt int
  | ObsError error "receipt option" int int
  | ObsComplete

text \<open>
  The fields of the class. \<open>provider\<close> is \<^verbatim>\<open>provider.constructor.name\<close>, all the source
  reads of the provider. \<open>lastBlock\<close> and \<open>observable\<close> start as \<^verbatim>\<open>false\<close>: \<open>None\<close>
  and \<open>False\<close> here; \<open>observable = True\<close> says that the field holds the Observable made by
  \<^verbatim>\<open>observe\<close>. \<open>interval = True\<close> says that the field holds a timer handle.

  Two more fields stand for the state of the collaborators the observer drives:
  \<open>subscribed\<close> (the newHeads subscription delivers announcements to the callback) and
  \<open>ticking\<close> (the interval timer is scheduled). \<^verbatim>\<open>unsubscribe()\<close> and \<^verbatim>\<open>clearInterval\<close>
  switch them off.
\<close>

record tracker =
  provider :: string
  timeout :: int
  blockConfirmations :: int
  blockNumbers :: "int list"
  lastBlock :: "block option"
  confirmations :: int
  confirmationChecks :: int
  observable :: bool
  interval :: bool
  subscribed :: bool
  ticking :: bool

text \<open>What the newHeads subscription passes to its callback: \<^verbatim>\<open>(newHeadError, newHead)\<close>.\<close>

datatype announcement = HeadError string | NewHead block

text \<open>
  What a fetch answers: \<open>Inl msg\<close> is a rejected promise, \<open>Inr None\<close> the value
  \<^verbatim>\<open>null\<close> (no receipt yet, unknown block), \<open>Inr (Some x)\<close> the object.
\<close>

type_synonym receipt_result = "string + receipt option"
type_synonym block_result = "string + block option"

subsection \<open>Constructor and policy predicates\<close>

definition constructor :: "string \<Rightarrow> int \<Rightarrow> int \<Rightarrow> tracker" where
  "constructor prov tmo confs =
     \<lparr> provider = prov, timeout = tmo, blockConfirmations = confs,
       blockNumbers = [], lastBlock = None, confirmations = 0, confirmationChecks = 0,
       observable = False, interval = False, subscribed = False, ticking = False \<rparr>"

definition isSocketBasedProvider :: "tracker \<Rightarrow> bool" where
  "isSocketBasedProvider s =
     (if provider s = ''CustomProvider'' then False
      else if provider s = ''HttpProvider'' then False
      else True)"

definition isConfirmed :: "tracker \<Rightarrow> bool" where
  "isConfirmed s = (confirmations s = blockConfirmations s)"

text \<open>\<^verbatim>\<open>this.lastBlock.hash === block.parentHash && this.lastBlock.number !== block.number\<close>.
  On \<^verbatim>\<open>lastBlock = false\<close> the left operand is \<^verbatim>\<open>undefined === block.parentHash\<close>, which
  is false.\<close>

definition isValidConfirmation :: "tracker \<Rightarrow> block \<Rightarrow> bool" where
  "isValidConfirmation s b =
     (case lastBlock s of
        None \<Rightarrow> False
      | Some lb \<Rightarrow> hash lb = parentHash b \<and> number lb \<noteq> number b)"

definition isTimeoutTimeExceeded :: "tracker \<Rightarrow> bool" where
  "isTimeoutTimeExceeded s = (confirmationChecks s = timeout s)"

definition emitNext :: "tracker \<Rightarrow> receipt \<Rightarrow> event" where
  "emitNext s r = ObsNext r (confirmations s)"

definition emitError :: "tracker \<Rightarrow> error \<Rightarrow> receipt option \<Rightarrow> event" where
  "emitError s e r = ObsError e r (confirmations s) (confirmationChecks s)"

subsection \<open>Socket providers: one callback of the newHeads subscription\<close>

text \<open>Lines 113 to 121: the receipt-bearing part of a cycle whose block number is new.\<close>

definition socketConfirm :: "tracker \<Rightarrow> receipt option \<Rightarrow> tracker \<times> event list" where
  "socketConfirm s ro =
     (case ro of
        None \<Rightarrow> (s, [])
      | Some r \<Rightarrow>
          (let s1 = s\<lparr>confirmations := confirmations s + 1\<rparr> in
           if isConfirmed s1
           then (s1\<lparr>subscribed := False\<rparr>, [emitNext s1 r, Unsubscribe, ObsComplete])
           else (s1, [emitNext s1 r])))"

text \<open>Lines 123 to 134: record the block number, count the check, test the timeout.\<close>

definition socketCheck :: "tracker \<Rightarrow> int \<Rightarrow> receipt option \<Rightarrow> tracker \<times> event list" where
  "socketCheck s n ro =
     (let s2 = s\<lparr>blockNumbers := blockNumbers s @ [n],
                 confirmationChecks := confirmationChecks s + 1\<rparr> in
      if isTimeoutTimeExceeded s2
      then (s2\<lparr>subscribed := False\<rparr>, [emitError s2 Timeout ro, Unsubscribe])
      else (s2, []))"

text \<open>The callback of \<^verbatim>\<open>startSocketObserver\<close>, lines 103 to 143.\<close>

definition socketCycle ::
  "string \<Rightarrow> tracker \<Rightarrow> announcement \<Rightarrow> receipt_result \<Rightarrow> tracker \<times> event list" where
  "socketCycle tx s ann rr =
     (case ann of
        HeadError e \<Rightarrow> (s, [emitError s (Thrown e) None])
      | NewHead h \<Rightarrow>
          (case rr of
             Inl e \<Rightarrow> (s, [FetchReceipt tx, emitError s (Thrown e) None])
           | Inr ro \<Rightarrow>
               if number h \<in> set (blockNumbers s) then (s, [FetchReceipt tx])
               else
                 (let (s1, ev1) = socketConfirm s ro;
                      (s2, ev2) = socketCheck s1 (number h) ro
                  in (s2, FetchReceipt tx # ev1 @ ev2))))"

subsection \<open>HTTP and custom providers: one tick of the interval timer\<close>

text \<open>The catch block of the tick, lines 192 to 195.\<close>

definition httpCatch :: "tracker \<Rightarrow> error \<Rightarrow> event list \<Rightarrow> tracker \<times> event list" where
  "httpCatch s e pre =
     (let s1 = s\<lparr>ticking := False\<rparr> in (s1, pre @ [ClearInterval, emitError s1 e None]))"

text \<open>Lines 175 to 191: completion test of a receipt-bearing tick (\<open>confirmedTest = True\<close>),
  then the check count and the timeout test of every tick that did not throw.\<close>

definition httpCheck ::
  "tracker \<Rightarrow> bool \<Rightarrow> receipt option \<Rightarrow> event list \<Rightarrow> tracker \<times> event list" where
  "httpCheck s confirmedTest ro pre =
     (let (s1, ev1) =
            (if confirmedTest \<and> isConfirmed s
             then (s\<lparr>ticking := False\<rparr>, [ClearInterval, ObsComplete])
             else (s, []));
          s2 = s1\<lparr>confirmationChecks := confirmationChecks s1 + 1\<rparr>
      in if isTimeoutTimeExceeded s2
         then (let s3 = s2\<lparr>ticking := False\<rparr>
               in (s3, pre @ ev1 @ [ClearInterval, emitError s3 Timeout ro]))
         else (s2, pre @ ev1))"

text \<open>
  The callback of \<^verbatim>\<open>startHttpObserver\<close>, lines 155 to 196. The block answer \<open>br\<close> is
  consulted only on a tick that fetches a block. A \<^verbatim>\<open>null\<close> block makes
  \<^verbatim>\<open>block.parentHash\<close> a TypeError when \<open>lastBlock\<close> is set, and is stored as it is (and
  counted) when \<open>lastBlock\<close> is unset.
\<close>

definition httpCycle ::
  "string \<Rightarrow> tracker \<Rightarrow> receipt_result \<Rightarrow> block_result \<Rightarrow> tracker \<times> event list" where
  "httpCycle tx s rr br =
     (case rr of
        Inl e \<Rightarrow> httpCatch s (Thrown e) [FetchReceipt tx]
      | Inr None \<Rightarrow> httpCheck s False None [FetchReceipt tx]
      | Inr (Some r) \<Rightarrow>
          (let fetched = [FetchReceipt tx, FetchBlock (blockHash r)] in
           case br of
             Inl e \<Rightarrow> httpCatch s (Thrown e) fetched
           | Inr bo \<Rightarrow>
               (case lastBlock s of
                  Some lb \<Rightarrow>
                    (case bo of
                       None \<Rightarrow> httpCatch s TypeError fetched
                     | Some b \<Rightarrow>
                         if isValidConfirmation s b
                         then (let s1 = s\<lparr>confirmations := confirmations s + 1\<rparr>
                               in httpCheck (s1\<lparr>lastBlock := Some b\<rparr>) True (Some r)
                                    (fetched @ [emitNext s1 r]))
                         else httpCheck s True (Some r) fetched)
                | None \<Rightarrow>
                    (let s1 = s\<lparr>lastBlock := bo\<rparr>;
                         s2 = s1\<lparr>confirmations := confirmations s1 + 1\<rparr>
                     in httpCheck s2 True (Some r) (fetched @ [emitNext s2 r])))))"

subsection \<open>Lifecycle: observe, subscription of the consumer, stop\<close>

text \<open>\<^verbatim>\<open>observe\<close> stores a cold Observable and returns it; nothing else is touched.\<close>

definition observe :: "tracker \<Rightarrow> tracker" where
  "observe s = s\<lparr>observable := True\<rparr>"

text \<open>The function given to \<^verbatim>\<open>Observable.create\<close>, run when the consumer subscribes:
  it subscribes to newHeads (line 103) or sets the interval (line 155).\<close>

definition subscribeObservable :: "tracker \<Rightarrow> tracker" where
  "subscribeObservable s =
     (if isSocketBasedProvider s then s\<lparr>subscribed := True\<rparr>
      else s\<lparr>interval := True, ticking := True\<rparr>)"

text \<open>
  \<^verbatim>\<open>stop\<close>, lines 84 to 92. The third component is the exception the call raises, if any.
  The last statement calls \<^verbatim>\<open>unsubscribe\<close> on the field \<open>observable\<close>: while the field is
  \<^verbatim>\<open>false\<close> that is a call of \<^verbatim>\<open>undefined\<close>, a TypeError. What the call does on an RxJS
  Observable is decided by RxJS, which is not part of the source: \<open>obsUnsub\<close> is the
  exception it raises, if any.
\<close>

definition stop :: "error option \<Rightarrow> tracker \<Rightarrow> tracker \<times> event list \<times> error option" where
  "stop obsUnsub s =
     (let (s1, ev) =
            (if isSocketBasedProvider s then (s\<lparr>subscribed := False\<rparr>, [Unsubscribe])
             else (s\<lparr>ticking := False\<rparr>, [ClearInterval]))
      in (s1, ev, if observable s1 then obsUnsub else Some TypeError))"

subsection \<open>Runs: the cycles of one observation\<close>

text \<open>
  Serial delivery: the subscription calls the callback for each announcement while it is
  subscribed, the timer for each tick while it is scheduled, each callback after the
  previous one has settled; after \<^verbatim>\<open>unsubscribe()\<close> or \<^verbatim>\<open>clearInterval\<close> no further
  callback starts. This is an assumption on the scheduling, which the source does not
  enforce. A push callback reads the tracker only after its awaited receipt fetch (lines
  110 to 112), so a callback that is already awaiting when the subscription is released
  is \<open>socketCycle\<close> applied to the tracker it finds when it settles, subscribed or not.
\<close>

fun runSocket ::
  "string \<Rightarrow> tracker \<Rightarrow> (announcement \<times> receipt_result) list \<Rightarrow> tracker \<times> event list" where
  "runSocket tx s [] = (s, [])"
| "runSocket tx s ((ann, rr) # rest) =
     (if subscribed s
      then (let (s1, ev1) = socketCycle tx s ann rr;
                (s2, ev2) = runSocket tx s1 rest
            in (s2, ev1 @ ev2))
      else (s, []))"

fun runHttp ::
  "string \<Rightarrow> tracker \<Rightarrow> (receipt_result \<times> block_result) list \<Rightarrow> tracker \<times> event list" where
  "runHttp tx s [] = (s, [])"
| "runHttp tx s ((rr, br) # rest) =
     (if ticking s
      then (let (s1, ev1) = httpCycle tx s rr br;
                (s2, ev2) = runHttp tx s1 rest
            in (s2, ev1 @ ev2))
      else (s, []))"

text \<open>Selectors on traces.\<close>

fun isNext :: "event \<Rightarrow> bool" where
  "isNext (ObsNext r c) = True"
| "isNext e = False"

fun isTerminal :: "event \<Rightarrow> bool" where
  "isTerminal (ObsError e r c k) = True"
| "isTerminal ObsComplete = True"
| "isTerminal e = False"

fun isTimeoutError :: "event \<Rightarrow> bool" where
  "isTimeoutError (ObsError Timeout r c k) = True"
| "isTimeoutError e = False"

fun isObserverCall :: "event \<Rightarrow> bool" where
  "isObserverCall (ObsNext r c) = True"
| "isObserverCall (ObsError e r c k) = True"
| "isObserverCall ObsComplete = True"
| "isObserverCall e = False"

fun isFetchReceipt :: "event \<Rightarrow> bool" where
  "isFetchReceipt (FetchReceipt tx) = True"
| "isFetchReceipt e = False"

fun isErrorCall :: "event \<Rightarrow> bool" where
  "isErrorCall (ObsError e r c k) = True"
| "isErrorCall e = False"

text \<open>A progress event whose confirmation count lies between 1 and \<open>n\<close>; any other
  event passes.\<close>

fun nextWithin :: "int \<Rightarrow> event \<Rightarrow> bool" where
  "nextWithin n (ObsNext r c) = (1 \<le> c \<and> c \<le> n)"
| "nextWithin n e = True"

text \<open>
  \<^verbatim>\<open>new TransactionObserver(...)\<close>, then \<^verbatim>\<open>observe(tx)\<close>, then the consumer's
  \<^verbatim>\<open>subscribe\<close>: the tracker as the first cycle of its first observation finds it.
\<close>

definition started :: "string \<Rightarrow> int \<Rightarrow> int \<Rightarrow> tracker" where
  "started prov tmo confs = subscribeObservable (observe (constructor prov tmo confs))"

text \<open>The bound on the confirmation count, with the strict bound while cycles can still
  start, for either strategy.\<close>

definition socketInv :: "tracker \<Rightarrow> bool" where
  "socketInv s =
     (0 \<le> confirmations s \<and> confirmations s \<le> blockConfirmations s \<and>
      (if subscribed s then confirmations s < blockConfirmations s else True))"

definition httpInv :: "tracker \<Rightarrow> bool" where
  "httpInv s =
     (0 \<le> confirmations s \<and> confirmations s \<le> blockConfirmations s \<and>
      (if ticking s then confirmations s < blockConfirmations s else True))"

text \<open>
  What deduplication by block number gives between a state \<open>s\<close> and a later state \<open>s'\<close>:
  no number is recorded twice, every counted check recorded one number, and the
  confirmation count grew by no more than the numbers recorded.
\<close>

definition countedOnce :: "tracker \<Rightarrow> tracker \<Rightarrow> bool" where
  "countedOnce s s' =
     (distinct (blockNumbers s') \<and>
      confirmationChecks s' - confirmationChecks s =
        int (length (blockNumbers s')) - int (length (blockNumbers s)) \<and>
      confirmations s \<le> confirmations s' \<and>
      confirmations s' - confirmations s \<le>
        int (length (blockNumbers s')) - int (length (blockNumbers s)))"

subsection \<open>Sample chain data\<close>

definition head10 :: block where
  "head10 = \<lparr>hash = ''0xb10'', parentHash = ''0xb09'', number = 10\<rparr>"

definition head11 :: block where
  "head11 = \<lparr>hash = ''0xb11'', parentHash = ''0xb10'', number = 11\<rparr>"

definition head12 :: block where
  "head12 = \<lparr>hash = ''0xb12'', parentHash = ''0xb11'', number = 12\<rparr>"

text \<open>A block that names \<open>head10\<close> as its parent and carries a lower number.\<close>

definition lowerChild :: block where
  "lowerChild = \<lparr>hash = ''0xc09'', parentHash = ''0xb10'', number = 9\<rparr>"

text \<open>A block at the height of \<open>head10\<close> on another branch.\<close>

definition sibling10 :: block where
  "sibling10 = \<lparr>hash = ''0xd10'', parentHash = ''0xd09'', number = 10\<rparr>"

definition receiptIn :: "block \<Rightarrow> receipt" where
  "receiptIn b = \<lparr>blockHash = hash b\<rparr>"

text \<open>A poll-mode tracker after its first accepted block, \<open>head10\<close>.\<close>

definition afterHead10 :: tracker where
  "afterHead10 =
     (started ''HttpProvider'' 50 12)
       \<lparr>lastBlock := Some head10, confirmations := 1, confirmationChecks := 1\<rparr>"

section \<open>Properties\<close>

subsection \<open>Unfolding sets and start states\<close>

lemmas cycle_defs =
  socketCycle_def socketConfirm_def socketCheck_def httpCycle_def httpCheck_def httpCatch_def
  isConfirmed_def isValidConfirmation_def isTimeoutTimeExceeded_def emitNext_def emitError_def

lemmas start_defs =
  started_def constructor_def observe_def subscribeObservable_def isSocketBasedProvider_def

lemmas sample_defs =
  head10_def head11_def head12_def lowerChild_def sibling10_def receiptIn_def afterHead10_def

lemma isSocket_observe: "isSocketBasedProvider (observe s) = isSocketBasedProvider s"
  by (simp add: isSocketBasedProvider_def observe_def)

lemma started_socket:
  "isSocketBasedProvider (constructor p tmo confs) \<Longrightarrow>
   started p tmo confs = (constructor p tmo confs)\<lparr>observable := True, subscribed := True\<rparr>"
  by (simp add: started_def subscribeObservable_def isSocket_observe) (simp add: observe_def)

lemma started_http:
  "\<not> isSocketBasedProvider (constructor p tmo confs) \<Longrightarrow>
   started p tmo confs =
     (constructor p tmo confs)\<lparr>observable := True, interval := True, ticking := True\<rparr>"
  by (simp add: started_def subscribeObservable_def isSocket_observe) (simp add: observe_def)

lemma runSocket_unsubscribed: "\<not> subscribed s \<Longrightarrow> runSocket tx s ins = (s, [])"
  by (cases ins) auto

lemma runHttp_cleared: "\<not> ticking s \<Longrightarrow> runHttp tx s ins = (s, [])"
  by (cases ins) auto

subsection \<open>Poll mode: which candidate block counts\<close>

text \<open>
  Claim C1, as the spec words it, asks for a candidate that is chain-continuous and
  strictly taller. The source tests \<^verbatim>\<open>lastBlock.number !== block.number\<close>: a block that
  names the last accepted block as its parent and carries a lower number is accepted. In
  the run below the first tick accepts \<open>head10\<close> (number 10) and the second accepts
  \<open>lowerChild\<close> (parent \<open>head10\<close>, number 9).
\<close>

theorem poll_accepts_lower_child:
  "confirmations (fst (runHttp ''0xtx'' (started ''HttpProvider'' 50 12)
      [(Inr (Some (receiptIn head10)), Inr (Some head10)),
       (Inr (Some (receiptIn lowerChild)), Inr (Some lowerChild))])) = 2 \<and>
   lastBlock (fst (runHttp ''0xtx'' (started ''HttpProvider'' 50 12)
      [(Inr (Some (receiptIn head10)), Inr (Some head10)),
       (Inr (Some (receiptIn lowerChild)), Inr (Some lowerChild))])) = Some lowerChild \<and>
   parentHash lowerChild = hash head10 \<and>
   \<not> number head10 < number lowerChild"
  by (simp add: start_defs cycle_defs sample_defs Let_def)

text \<open>
  Claim C1, amended: on a poll tick with a receipt, with \<open>lastBlock\<close> set to \<open>lb\<close> and the
  block fetch answering \<open>b\<close>, the block is accepted (confirmations incremented, one
  progress event with the new count, \<open>lastBlock\<close> set to \<open>b\<close>) if and only if
  \<open>parentHash b = hash lb\<close> and \<open>number b\<close> differs from \<open>number lb\<close>; otherwise the
  tick leaves confirmations and \<open>lastBlock\<close> as they were and emits no progress event.
\<close>

theorem poll_confirmation_accepted_iff:
  assumes "lastBlock s = Some lb"
  shows "(let (s', ev) = httpCycle tx s (Inr (Some r)) (Inr (Some b)) in
          if hash lb = parentHash b \<and> number lb \<noteq> number b
          then confirmations s' = confirmations s + 1 \<and> lastBlock s' = Some b \<and>
               filter isNext ev = [ObsNext r (confirmations s + 1)]
          else confirmations s' = confirmations s \<and> lastBlock s' = lastBlock s \<and>
               filter isNext ev = [])"
  using assms by (simp add: cycle_defs Let_def split: prod.splits if_splits)

theorem poll_confirmation_accepted_iff_witness:
  "lastBlock afterHead10 = Some head10 \<and>
   confirmations (fst (httpCycle ''0xtx'' afterHead10 (Inr (Some (receiptIn head11)))
      (Inr (Some head11)))) = 2 \<and>
   confirmations (fst (httpCycle ''0xtx'' afterHead10 (Inr (Some (receiptIn sibling10)))
      (Inr (Some sibling10)))) = 1"
  using poll_confirmation_accepted_iff [of afterHead10 head10 "''0xtx''" "receiptIn head11" head11]
    poll_confirmation_accepted_iff [of afterHead10 head10 "''0xtx''" "receiptIn sibling10" sibling10]
  by (simp add: sample_defs start_defs split: prod.splits)


subsection \<open>Push mode: deduplication by block number\<close>

lemma socketCycle_fetches_once:
  "length (filter isFetchReceipt (snd (socketCycle tx s (NewHead h) rr))) = 1"
  by (auto simp add: cycle_defs Let_def split: prod.splits sum.splits option.splits)

lemma socketCycle_countedOnce:
  assumes "distinct (blockNumbers s)" "socketCycle tx s ann rr = (s', ev)"
  shows "countedOnce s s'"
  using assms
  by (auto simp add: cycle_defs countedOnce_def Let_def
      split: prod.splits if_splits sum.splits option.splits announcement.splits)

lemma countedOnce_refl: "distinct (blockNumbers s) \<Longrightarrow> countedOnce s s"
  by (simp add: countedOnce_def)

lemma countedOnce_trans: "countedOnce a b \<Longrightarrow> countedOnce b c \<Longrightarrow> countedOnce a c"
  by (auto simp add: countedOnce_def)

lemma runSocket_countedOnce:
  "distinct (blockNumbers s) \<Longrightarrow> runSocket tx s ins = (s', ev) \<Longrightarrow> countedOnce s s'"
proof (induction ins arbitrary: s s' ev)
  case Nil
  then show ?case by (simp add: countedOnce_refl)
next
  case (Cons i ins)
  obtain ann rr where i: "i = (ann, rr)" by (cases i)
  show ?case
  proof (cases "subscribed s")
    case False
    with Cons.prems i show ?thesis by (simp add: countedOnce_refl)
  next
    case True
    obtain s1 ev1 where c: "socketCycle tx s ann rr = (s1, ev1)"
      by (cases "socketCycle tx s ann rr")
    obtain s2 ev2 where r: "runSocket tx s1 ins = (s2, ev2)"
      by (cases "runSocket tx s1 ins")
    from Cons.prems(2) i True c r have eq: "s' = s2" by simp
    from socketCycle_countedOnce [OF Cons.prems(1) c] have one: "countedOnce s s1" .
    then have "distinct (blockNumbers s1)" by (simp add: countedOnce_def)
    from Cons.IH [OF this r] have "countedOnce s1 s2" .
    with one eq show ?thesis by (blast intro: countedOnce_trans)
  qed
qed

text \<open>
  Claim C2, as the spec words it, has a repeated block number ignored before any receipt
  fetch. The source awaits the receipt first (line 110) and looks the number up afterwards
  (line 112): two announcements of block 10 make two fetches.
\<close>

theorem push_repeated_number_fetches_twice:
  "length (filter isFetchReceipt (snd (runSocket ''0xtx'' (started ''WebsocketProvider'' 50 12)
      [(NewHead head10, Inr None), (NewHead head10, Inr None)]))) = 2"
  by (simp add: start_defs cycle_defs sample_defs Let_def)

text \<open>
  Claim C2, amended: in push mode every announcement delivered without a subscription
  error makes exactly one receipt fetch, whether or not its number was seen before;
  deduplication acts after the fetch. Over any run that starts with no number recorded
  twice, no number is recorded twice at the end, the checks counted are exactly the
  numbers recorded, and the confirmations counted are at most the numbers recorded: a
  block number is counted at most once.
\<close>

theorem push_dedup_after_fetch:
  "length (filter isFetchReceipt (snd (socketCycle tx s (NewHead h) rr))) = 1 \<and>
   (distinct (blockNumbers s) \<longrightarrow>
      (let s' = fst (runSocket tx s ins) in
         distinct (blockNumbers s') \<and>
         confirmationChecks s' - confirmationChecks s =
           int (length (blockNumbers s')) - int (length (blockNumbers s)) \<and>
         confirmations s' - confirmations s \<le>
           int (length (blockNumbers s')) - int (length (blockNumbers s))))"
  using runSocket_countedOnce [of s tx ins "fst (runSocket tx s ins)" "snd (runSocket tx s ins)"]
  by (simp add: socketCycle_fetches_once countedOnce_def Let_def)

theorem push_dedup_after_fetch_witness:
  "distinct (blockNumbers (started ''WebsocketProvider'' 50 12)) \<and>
   blockNumbers (fst (runSocket ''0xtx'' (started ''WebsocketProvider'' 50 12)
      [(NewHead head10, Inr None), (NewHead head10, Inr (Some (receiptIn head10))),
       (NewHead head11, Inr (Some (receiptIn head10)))])) = [10, 11] \<and>
   confirmationChecks (fst (runSocket ''0xtx'' (started ''WebsocketProvider'' 50 12)
      [(NewHead head10, Inr None), (NewHead head10, Inr (Some (receiptIn head10))),
       (NewHead head11, Inr (Some (receiptIn head10)))])) = 2 \<and>
   confirmations (fst (runSocket ''0xtx'' (started ''WebsocketProvider'' 50 12)
      [(NewHead head10, Inr None), (NewHead head10, Inr (Some (receiptIn head10))),
       (NewHead head11, Inr (Some (receiptIn head10)))])) = 1"
  using push_dedup_after_fetch [of "''0xtx''" "started ''WebsocketProvider'' 50 12" head10 "Inr None"
      "[(NewHead head10, Inr None), (NewHead head10, Inr (Some (receiptIn head10))),
        (NewHead head11, Inr (Some (receiptIn head10)))]"]
  by (simp add: start_defs cycle_defs sample_defs Let_def)

text \<open>
  Claim C10: a push cycle whose announced number is already recorded and whose receipt
  fetch succeeds returns the tracker as it was, every field, and its only call is the
  receipt fetch: no \<^verbatim>\<open>next\<close>, \<^verbatim>\<open>error\<close> or \<^verbatim>\<open>complete\<close>.
\<close>

theorem push_seen_number_frame:
  assumes "number h \<in> set (blockNumbers s)"
  shows "socketCycle tx s (NewHead h) (Inr ro) = (s, [FetchReceipt tx]) \<and>
         filter isObserverCall (snd (socketCycle tx s (NewHead h) (Inr ro))) = []"
  using assms by (simp add: socketCycle_def)

theorem push_seen_number_frame_witness:
  "number head10 \<in> set (blockNumbers ((started ''WebsocketProvider'' 50 12)
       \<lparr>blockNumbers := [10], confirmationChecks := 1\<rparr>)) \<and>
   socketCycle ''0xtx'' ((started ''WebsocketProvider'' 50 12)
       \<lparr>blockNumbers := [10], confirmationChecks := 1\<rparr>)
     (NewHead head10) (Inr (Some (receiptIn head10))) =
     ((started ''WebsocketProvider'' 50 12)\<lparr>blockNumbers := [10], confirmationChecks := 1\<rparr>,
      [FetchReceipt ''0xtx''])"
  using push_seen_number_frame [of head10
      "(started ''WebsocketProvider'' 50 12)\<lparr>blockNumbers := [10], confirmationChecks := 1\<rparr>"
      "''0xtx''" "Some (receiptIn head10)"]
  by (simp add: head10_def)

subsection \<open>The timeout test\<close>


subsection \<open>Scenario A\<close>

text \<open>
  Claim C8: on a socket provider with two required confirmations and a timeout budget
  above two, three announcements at heights 10, 11 and 12, each with a receipt, give two
  progress events, with counts 1 and 2, then \<^verbatim>\<open>unsubscribe()\<close> and \<^verbatim>\<open>complete()\<close>. The
  third announcement starts no cycle: nothing is fetched for it and only the numbers 10
  and 11 are recorded.
\<close>

theorem push_happy_path:
  assumes "isSocketBasedProvider (constructor p tmo 2)" and "2 < tmo"
    and "number a = 10" and "number b = 11" and "number c = 12"
  shows "runSocket tx (started p tmo 2)
           [(NewHead a, Inr (Some r1)), (NewHead b, Inr (Some r2)), (NewHead c, Inr (Some r3))] =
         ((started p tmo 2)\<lparr>blockNumbers := [10, 11], confirmations := 2,
             confirmationChecks := 2, subscribed := False\<rparr>,
          [FetchReceipt tx, ObsNext r1 1, FetchReceipt tx, ObsNext r2 2, Unsubscribe, ObsComplete])"
  using assms(2-5) unfolding started_socket [OF assms(1)]
  by (simp add: constructor_def cycle_defs Let_def)

theorem push_happy_path_witness:
  "isSocketBasedProvider (constructor ''WebsocketProvider'' 50 2) \<and> (2::int) < 50 \<and>
   number head10 = 10 \<and> number head11 = 11 \<and> number head12 = 12 \<and>
   snd (runSocket ''0xtx'' (started ''WebsocketProvider'' 50 2)
      [(NewHead head10, Inr (Some (receiptIn head10))),
       (NewHead head11, Inr (Some (receiptIn head10))),
       (NewHead head12, Inr (Some (receiptIn head10)))]) =
     [FetchReceipt ''0xtx'', ObsNext (receiptIn head10) 1,
      FetchReceipt ''0xtx'', ObsNext (receiptIn head10) 2, Unsubscribe, ObsComplete]"
proof -
  have h: "isSocketBasedProvider (constructor ''WebsocketProvider'' 50 2)" "(2::int) < 50"
    "number head10 = 10" "number head11 = 11" "number head12 = 12"
    by (simp_all add: isSocketBasedProvider_def constructor_def sample_defs)
  from push_happy_path [OF h, of "''0xtx''" "receiptIn head10" "receiptIn head10" "receiptIn head10"] h
  show ?thesis by simp
qed

subsection \<open>The state an observation starts from\<close>

text \<open>
  Claim C9, as the spec words it, has every \<^verbatim>\<open>observe()\<close> start from an empty state,
  also on a tracker that was observed before. The fields are set in the constructor only:
  after an observation that ended with one confirmation, a second \<^verbatim>\<open>observe\<close> and
  subscription find the count, the check count and the recorded numbers of the first.
\<close>

theorem reobserve_sees_old_state:
  "confirmations (subscribeObservable (observe (fst (runSocket ''0xtx''
      (started ''WebsocketProvider'' 50 1) [(NewHead head10, Inr (Some (receiptIn head10)))])))) = 1 \<and>
   confirmationChecks (subscribeObservable (observe (fst (runSocket ''0xtx''
      (started ''WebsocketProvider'' 50 1) [(NewHead head10, Inr (Some (receiptIn head10)))])))) = 1 \<and>
   blockNumbers (subscribeObservable (observe (fst (runSocket ''0xtx''
      (started ''WebsocketProvider'' 50 1) [(NewHead head10, Inr (Some (receiptIn head10)))])))) = [10]"
  by (simp add: start_defs cycle_defs sample_defs Let_def)

text \<open>
  Claim C9, amended: \<^verbatim>\<open>observe()\<close> and the start of the stream leave confirmations,
  confirmationChecks, the recorded block numbers and lastBlock as they are, so the first
  cycle sees the state the tracker had before the call; on a newly constructed tracker
  that state is empty.
\<close>

theorem observe_keeps_state:
  "confirmations (subscribeObservable (observe s)) = confirmations s \<and>
   confirmationChecks (subscribeObservable (observe s)) = confirmationChecks s \<and>
   blockNumbers (subscribeObservable (observe s)) = blockNumbers s \<and>
   lastBlock (subscribeObservable (observe s)) = lastBlock s \<and>
   confirmations (started p tmo confs) = 0 \<and>
   confirmationChecks (started p tmo confs) = 0 \<and>
   blockNumbers (started p tmo confs) = [] \<and>
   lastBlock (started p tmo confs) = None"
  by (simp add: started_def subscribeObservable_def observe_def constructor_def)


subsection \<open>The confirmation count stays within the required count\<close>

lemma socketConfirm_inv:
  assumes "socketInv s" "subscribed s" "socketConfirm s ro = (s', ev)"
  shows "socketInv s' \<and> blockConfirmations s' = blockConfirmations s \<and>
         list_all (nextWithin (blockConfirmations s)) ev"
  using assms
  by (cases ro)
    (auto simp add: socketConfirm_def isConfirmed_def emitNext_def socketInv_def Let_def
      split: if_splits)

lemma socketCheck_inv:
  assumes "socketInv s" "socketCheck s n ro = (s', ev)"
  shows "socketInv s' \<and> blockConfirmations s' = blockConfirmations s \<and>
         list_all (nextWithin k) ev"
  using assms
  by (auto simp add: socketCheck_def isTimeoutTimeExceeded_def emitError_def socketInv_def Let_def
      split: if_splits)

lemma socketCycle_inv:
  assumes "socketInv s" "subscribed s" "socketCycle tx s ann rr = (s', ev)"
  shows "socketInv s' \<and> blockConfirmations s' = blockConfirmations s \<and>
         list_all (nextWithin (blockConfirmations s)) ev"
proof (cases ann)
  case (HeadError e)
  with assms show ?thesis by (auto simp add: socketCycle_def emitError_def)
next
  case (NewHead h)
  show ?thesis
  proof (cases rr)
    case (Inl e)
    with assms NewHead show ?thesis by (auto simp add: socketCycle_def emitError_def)
  next
    case (Inr ro)
    show ?thesis
    proof (cases "number h \<in> set (blockNumbers s)")
      case True
      with assms NewHead Inr show ?thesis by (auto simp add: socketCycle_def)
    next
      case False
      obtain s1 ev1 where c: "socketConfirm s ro = (s1, ev1)"
        by (cases "socketConfirm s ro")
      obtain s2 ev2 where k: "socketCheck s1 (number h) ro = (s2, ev2)"
        by (cases "socketCheck s1 (number h) ro")
      from assms(3) NewHead Inr False c k
      have eq: "s' = s2" "ev = FetchReceipt tx # ev1 @ ev2"
        by (simp_all add: socketCycle_def)
      from socketConfirm_inv [OF assms(1,2) c]
      have one: "socketInv s1" "blockConfirmations s1 = blockConfirmations s"
        "list_all (nextWithin (blockConfirmations s)) ev1" by simp_all
      from socketCheck_inv [OF one(1) k, of "blockConfirmations s"] one(2)
      have two: "socketInv s2" "blockConfirmations s2 = blockConfirmations s"
        "list_all (nextWithin (blockConfirmations s)) ev2" by simp_all
      from one two eq show ?thesis by simp
    qed
  qed
qed

lemma httpCatch_inv:
  assumes "httpInv s" "httpCatch s e pre = (s', ev)" "list_all (nextWithin k) pre"
  shows "httpInv s' \<and> blockConfirmations s' = blockConfirmations s \<and>
         list_all (nextWithin k) ev"
  using assms by (auto simp add: httpCatch_def emitError_def httpInv_def Let_def)

lemma httpCheck_inv:
  assumes "0 \<le> confirmations s" "confirmations s \<le> blockConfirmations s"
    "ct \<or> confirmations s < blockConfirmations s"
    "httpCheck s ct ro pre = (s', ev)" "list_all (nextWithin k) pre"
  shows "httpInv s' \<and> blockConfirmations s' = blockConfirmations s \<and>
         list_all (nextWithin k) ev"
  using assms
  by (auto simp add: httpCheck_def isConfirmed_def isTimeoutTimeExceeded_def emitError_def
      httpInv_def Let_def split: if_splits)

lemma httpCycle_inv:
  assumes "httpInv s" "ticking s" "httpCycle tx s rr br = (s', ev)"
  shows "httpInv s' \<and> blockConfirmations s' = blockConfirmations s \<and>
         list_all (nextWithin (blockConfirmations s)) ev"
proof -
  from assms(1,2) have b: "0 \<le> confirmations s" "confirmations s < blockConfirmations s"
    by (simp_all add: httpInv_def)
  show ?thesis
  proof (cases rr)
    case (Inl e)
    with assms(3) have "httpCatch s (Thrown e) [FetchReceipt tx] = (s', ev)"
      by (simp add: httpCycle_def)
    from httpCatch_inv [OF assms(1) this] show ?thesis by simp
  next
    case (Inr ro)
    show ?thesis
    proof (cases ro)
      case None
      with assms(3) Inr have "httpCheck s False None [FetchReceipt tx] = (s', ev)"
        by (simp add: httpCycle_def)
      from httpCheck_inv [OF _ _ _ this] b show ?thesis by simp
    next
      case (Some r)
      let ?fetched = "[FetchReceipt tx, FetchBlock (blockHash r)]"
      show ?thesis
      proof (cases br)
        case (Inl e)
        with assms(3) Inr Some have "httpCatch s (Thrown e) ?fetched = (s', ev)"
          by (simp add: httpCycle_def)
        from httpCatch_inv [OF assms(1) this] show ?thesis by simp
      next
        case bo: (Inr bo)
        show ?thesis
        proof (cases "lastBlock s")
          case None
          let ?s2 = "s\<lparr>lastBlock := bo, confirmations := confirmations s + 1\<rparr>"
          from assms(3) Inr Some bo None
          have "httpCheck ?s2 True (Some r) (?fetched @ [emitNext ?s2 r]) = (s', ev)"
            by (simp add: httpCycle_def Let_def)
          from httpCheck_inv [OF _ _ _ this, of "blockConfirmations s"] b
          show ?thesis by (simp add: emitNext_def)
        next
          case lb: (Some lb)
          show ?thesis
          proof (cases bo)
            case None
            with assms(3) Inr Some bo lb have "httpCatch s TypeError ?fetched = (s', ev)"
              by (simp add: httpCycle_def)
            from httpCatch_inv [OF assms(1) this] show ?thesis by simp
          next
            case blk: (Some blk)
            show ?thesis
            proof (cases "isValidConfirmation s blk")
              case True
              let ?s1 = "s\<lparr>confirmations := confirmations s + 1\<rparr>"
              from assms(3) Inr Some bo lb blk True
              have "httpCheck (?s1\<lparr>lastBlock := Some blk\<rparr>) True (Some r)
                      (?fetched @ [emitNext ?s1 r]) = (s', ev)"
                by (simp add: httpCycle_def Let_def)
              from httpCheck_inv [OF _ _ _ this, of "blockConfirmations s"] b
              show ?thesis by (simp add: emitNext_def)
            next
              case False
              with assms(3) Inr Some bo lb blk
              have "httpCheck s True (Some r) ?fetched = (s', ev)"
                by (simp add: httpCycle_def)
              from httpCheck_inv [OF _ _ _ this, of "blockConfirmations s"] b
              show ?thesis by simp
            qed
          qed
        qed
      qed
    qed
  qed
qed

lemma runSocket_inv:
  "socketInv s \<Longrightarrow> runSocket tx s ins = (s', ev) \<Longrightarrow>
   socketInv s' \<and> blockConfirmations s' = blockConfirmations s \<and>
   list_all (nextWithin (blockConfirmations s)) ev"
proof (induction ins arbitrary: s s' ev)
  case Nil
  then show ?case by simp
next
  case (Cons i ins)
  obtain ann rr where i: "i = (ann, rr)" by (cases i)
  show ?case
  proof (cases "subscribed s")
    case False
    with Cons.prems i show ?thesis by simp
  next
    case True
    obtain s1 ev1 where c: "socketCycle tx s ann rr = (s1, ev1)"
      by (cases "socketCycle tx s ann rr")
    obtain s2 ev2 where r: "runSocket tx s1 ins = (s2, ev2)"
      by (cases "runSocket tx s1 ins")
    from Cons.prems(2) i True c r have eq: "s' = s2" "ev = ev1 @ ev2" by simp_all
    from socketCycle_inv [OF Cons.prems(1) True c]
    have one: "socketInv s1" "blockConfirmations s1 = blockConfirmations s"
      "list_all (nextWithin (blockConfirmations s)) ev1" by simp_all
    from Cons.IH [OF one(1) r] one(2)
    have two: "socketInv s2" "blockConfirmations s2 = blockConfirmations s"
      "list_all (nextWithin (blockConfirmations s)) ev2" by simp_all
    from one two eq show ?thesis by simp
  qed
qed

lemma runHttp_inv:
  "httpInv s \<Longrightarrow> runHttp tx s ins = (s', ev) \<Longrightarrow>
   httpInv s' \<and> blockConfirmations s' = blockConfirmations s \<and>
   list_all (nextWithin (blockConfirmations s)) ev"
proof (induction ins arbitrary: s s' ev)
  case Nil
  then show ?case by simp
next
  case (Cons i ins)
  obtain rr br where i: "i = (rr, br)" by (cases i)
  show ?case
  proof (cases "ticking s")
    case False
    with Cons.prems i show ?thesis by simp
  next
    case True
    obtain s1 ev1 where c: "httpCycle tx s rr br = (s1, ev1)"
      by (cases "httpCycle tx s rr br")
    obtain s2 ev2 where r: "runHttp tx s1 ins = (s2, ev2)"
      by (cases "runHttp tx s1 ins")
    from Cons.prems(2) i True c r have eq: "s' = s2" "ev = ev1 @ ev2" by simp_all
    from httpCycle_inv [OF Cons.prems(1) True c]
    have one: "httpInv s1" "blockConfirmations s1 = blockConfirmations s"
      "list_all (nextWithin (blockConfirmations s)) ev1" by simp_all
    from Cons.IH [OF one(1) r] one(2)
    have two: "httpInv s2" "blockConfirmations s2 = blockConfirmations s"
      "list_all (nextWithin (blockConfirmations s)) ev2" by simp_all
    from one two eq show ?thesis by simp
  qed
qed

text \<open>
  Claim C6, as the spec words it, bounds confirmations by the required count over every
  sequence of observation cycles and has no progress after the count is reached. The
  fields are not reset by \<^verbatim>\<open>observe()\<close>: with one required confirmation, the first
  observation ends with confirmations 1 and \<^verbatim>\<open>complete()\<close>; after a second
  \<^verbatim>\<open>observe\<close> and subscription the next announcement with a receipt raises confirmations
  to 2, emits a progress event with 2, and leaves the tracker subscribed, since 2 is not
  equal to 1.
\<close>

theorem reobserve_exceeds_required:
  "confirmations (fst (runSocket ''0xtx'' (started ''WebsocketProvider'' 50 1)
      [(NewHead head10, Inr (Some (receiptIn head10)))])) = 1 \<and>
   runSocket ''0xtx''
      (subscribeObservable (observe (fst (runSocket ''0xtx'' (started ''WebsocketProvider'' 50 1)
         [(NewHead head10, Inr (Some (receiptIn head10)))]))))
      [(NewHead head11, Inr (Some (receiptIn head10)))] =
     ((started ''WebsocketProvider'' 50 1)
        \<lparr>blockNumbers := [10, 11], confirmations := 2, confirmationChecks := 2\<rparr>,
      [FetchReceipt ''0xtx'', ObsNext (receiptIn head10) 2]) \<and>
   blockConfirmations (started ''WebsocketProvider'' 50 1) = 1"
  by (simp add: start_defs cycle_defs sample_defs Let_def)

text \<open>
  The same excess without a second observation: a push callback that is already awaiting
  its receipt when the count is reached settles afterwards on the unsubscribed tracker,
  counts again and emits a progress event after \<^verbatim>\<open>complete()\<close>.
\<close>

lemma late_callback_counts_after_complete:
  "\<not> subscribed (fst (socketCycle ''0xtx'' (started ''WebsocketProvider'' 50 1)
      (NewHead head10) (Inr (Some (receiptIn head10))))) \<and>
   socketCycle ''0xtx''
      (fst (socketCycle ''0xtx'' (started ''WebsocketProvider'' 50 1)
         (NewHead head10) (Inr (Some (receiptIn head10)))))
      (NewHead head11) (Inr (Some (receiptIn head10))) =
     ((started ''WebsocketProvider'' 50 1)
        \<lparr>blockNumbers := [10, 11], confirmations := 2, confirmationChecks := 2,
          subscribed := False\<rparr>,
      [FetchReceipt ''0xtx'', ObsNext (receiptIn head10) 2])"
  by (simp add: start_defs cycle_defs sample_defs Let_def)

text \<open>
  Claim C6, amended: take a tracker constructed with a required count \<open>confs > 0\<close>, its
  first observation (observed and subscribed to once), and any sequence of cycles of its
  strategy delivered one after another (any announcements and fetch answers in push mode,
  any fetch answers in poll mode, each cycle started only while the subscription or the
  timer is live and after the previous cycle has settled). After the run, and so after
  every prefix of it, \<open>0 \<le> confirmations \<le> confs\<close>; every progress event emitted on the
  way carries a count between 1 and \<open>confs\<close>; and when confirmations equals \<open>confs\<close> the
  subscription is gone or the timer cleared, so that whatever is delivered afterwards
  starts no cycle and emits nothing.
\<close>

theorem confirmations_bounded:
  assumes "0 < confs"
  shows "(if isSocketBasedProvider (constructor p tmo confs)
          then (let (s, ev) = runSocket tx (started p tmo confs) ins in
                  0 \<le> confirmations s \<and> confirmations s \<le> confs \<and>
                  list_all (nextWithin confs) ev \<and>
                  (confirmations s = confs \<longrightarrow>
                     \<not> subscribed s \<and> (\<forall>more. runSocket tx s more = (s, []))))
          else (let (s, ev) = runHttp tx (started p tmo confs) hs in
                  0 \<le> confirmations s \<and> confirmations s \<le> confs \<and>
                  list_all (nextWithin confs) ev \<and>
                  (confirmations s = confs \<longrightarrow>
                     \<not> ticking s \<and> (\<forall>more. runHttp tx s more = (s, [])))))"
proof (cases "isSocketBasedProvider (constructor p tmo confs)")
  case True
  obtain s ev where r: "runSocket tx (started p tmo confs) ins = (s, ev)"
    by (cases "runSocket tx (started p tmo confs) ins")
  have bc: "blockConfirmations (started p tmo confs) = confs"
    by (simp add: started_socket [OF True]) (simp add: constructor_def)
  from assms have "socketInv (started p tmo confs)"
    by (simp add: started_socket [OF True] socketInv_def) (simp add: constructor_def)
  from runSocket_inv [OF this r] bc
  have "socketInv s" "blockConfirmations s = confs" "list_all (nextWithin confs) ev"
    by simp_all
  then have "0 \<le> confirmations s" "confirmations s \<le> confs" "list_all (nextWithin confs) ev"
    "confirmations s = confs \<longrightarrow>
       \<not> subscribed s \<and> (\<forall>more. runSocket tx s more = (s, []))"
    by (auto simp add: socketInv_def runSocket_unsubscribed split: if_splits)
  with True r show ?thesis by simp
next
  case False
  obtain s ev where r: "runHttp tx (started p tmo confs) hs = (s, ev)"
    by (cases "runHttp tx (started p tmo confs) hs")
  have bc: "blockConfirmations (started p tmo confs) = confs"
    by (simp add: started_http [OF False]) (simp add: constructor_def)
  from assms have "httpInv (started p tmo confs)"
    by (simp add: started_http [OF False] httpInv_def) (simp add: constructor_def)
  from runHttp_inv [OF this r] bc
  have "httpInv s" "blockConfirmations s = confs" "list_all (nextWithin confs) ev"
    by simp_all
  then have "0 \<le> confirmations s" "confirmations s \<le> confs" "list_all (nextWithin confs) ev"
    "confirmations s = confs \<longrightarrow>
       \<not> ticking s \<and> (\<forall>more. runHttp tx s more = (s, []))"
    by (auto simp add: httpInv_def runHttp_cleared split: if_splits)
  with False r show ?thesis by simp
qed

theorem confirmations_bounded_witness:
  "(0::int) < 2 \<and>
   confirmations (fst (runHttp ''0xtx'' (started ''HttpProvider'' 50 2)
      [(Inr None, Inr None),
       (Inr (Some (receiptIn head10)), Inr (Some head10)),
       (Inr (Some (receiptIn head10)), Inr (Some head10)),
       (Inr (Some (receiptIn head11)), Inr (Some head11)),
       (Inr (Some (receiptIn head12)), Inr (Some head12))])) = 2 \<and>
   \<not> ticking (fst (runHttp ''0xtx'' (started ''HttpProvider'' 50 2)
      [(Inr None, Inr None),
       (Inr (Some (receiptIn head10)), Inr (Some head10)),
       (Inr (Some (receiptIn head10)), Inr (Some head10)),
       (Inr (Some (receiptIn head11)), Inr (Some head11)),
       (Inr (Some (receiptIn head12)), Inr (Some head12))])) \<and>
   confirmations (fst (runSocket ''0xtx'' (started ''WebsocketProvider'' 50 2)
      [(NewHead head10, Inr (Some (receiptIn head10))),
       (NewHead head11, Inr (Some (receiptIn head10))),
       (NewHead head12, Inr (Some (receiptIn head10)))])) = 2"
  using confirmations_bounded [of 2 "''HttpProvider''" 50 "''0xtx''" "[]"
      "[(Inr None, Inr None),
        (Inr (Some (receiptIn head10)), Inr (Some head10)),
        (Inr (Some (receiptIn head10)), Inr (Some head10)),
        (Inr (Some (receiptIn head11)), Inr (Some head11)),
        (Inr (Some (receiptIn head12)), Inr (Some head12))]"]
    confirmations_bounded [of 2 "''WebsocketProvider''" 50 "''0xtx''"
      "[(NewHead head10, Inr (Some (receiptIn head10))),
        (NewHead head11, Inr (Some (receiptIn head10))),
        (NewHead head12, Inr (Some (receiptIn head10)))]" "[]"]
  by (simp add: start_defs cycle_defs sample_defs Let_def)


subsection \<open>Terminal calls and the release of the resource\<close>

text \<open>Every poll tick that calls \<^verbatim>\<open>observer.error\<close> has cleared the timer, and every
  push cycle that reports the timeout has unsubscribed.\<close>

lemma httpCycle_error_releases:
  "list_ex isErrorCall (snd (httpCycle tx s rr br)) \<Longrightarrow> \<not> ticking (fst (httpCycle tx s rr br))"
  by (auto simp add: cycle_defs Let_def split: prod.splits if_splits sum.splits option.splits)

lemma socketCycle_timeout_releases:
  "list_ex isTimeoutError (snd (socketCycle tx s ann rr)) \<Longrightarrow>
   \<not> subscribed (fst (socketCycle tx s ann rr))"
  by (auto simp add: cycle_defs Let_def
      split: prod.splits if_splits sum.splits option.splits announcement.splits)

text \<open>
  Claim C3 on the code: with one required confirmation and a budget of one check, the
  first cycle that finds a receipt calls \<^verbatim>\<open>complete()\<close> and then, with no return in
  between, counts the check, finds the budget reached and calls \<^verbatim>\<open>error\<close> with the
  timeout. Both strategies do so.
\<close>

theorem complete_then_timeout_same_cycle:
  "snd (runSocket ''0xtx'' (started ''WebsocketProvider'' 1 1)
      [(NewHead head10, Inr (Some (receiptIn head10)))]) =
     [FetchReceipt ''0xtx'', ObsNext (receiptIn head10) 1, Unsubscribe, ObsComplete,
      ObsError Timeout (Some (receiptIn head10)) 1 1, Unsubscribe] \<and>
   snd (runHttp ''0xtx'' (started ''HttpProvider'' 1 1)
      [(Inr (Some (receiptIn head10)), Inr (Some head10))]) =
     [FetchReceipt ''0xtx'', FetchBlock ''0xb10'', ObsNext (receiptIn head10) 1,
      ClearInterval, ObsComplete,
      ClearInterval, ObsError Timeout (Some (receiptIn head10)) 1 1] \<and>
   filter isTerminal (snd (runSocket ''0xtx'' (started ''WebsocketProvider'' 1 1)
      [(NewHead head10, Inr (Some (receiptIn head10)))])) =
     [ObsComplete, ObsError Timeout (Some (receiptIn head10)) 1 1] \<and>
   filter isTerminal (snd (runHttp ''0xtx'' (started ''HttpProvider'' 1 1)
      [(Inr (Some (receiptIn head10)), Inr (Some head10))])) =
     [ObsComplete, ObsError Timeout (Some (receiptIn head10)) 1 1]"
  by (simp add: start_defs cycle_defs sample_defs Let_def)

text \<open>
  Claim C4 on the code: the catch block of the push callback calls \<^verbatim>\<open>observer.error\<close>
  with receipt \<^verbatim>\<open>false\<close> and does not unsubscribe. After a subscription error and after a
  rejected receipt fetch the tracker is still subscribed, and the next announcement is
  processed.
\<close>

theorem push_failure_keeps_subscription:
  "runSocket ''0xtx'' (started ''WebsocketProvider'' 50 12)
      [(HeadError ''connection lost'', Inr None),
       (NewHead head10, Inl ''request failed''),
       (NewHead head11, Inr (Some (receiptIn head10)))] =
     ((started ''WebsocketProvider'' 50 12)
        \<lparr>blockNumbers := [11], confirmations := 1, confirmationChecks := 1\<rparr>,
      [ObsError (Thrown ''connection lost'') None 0 0,
       FetchReceipt ''0xtx'', ObsError (Thrown ''request failed'') None 0 0,
       FetchReceipt ''0xtx'', ObsNext (receiptIn head10) 1]) \<and>
   subscribed (fst (runSocket ''0xtx'' (started ''WebsocketProvider'' 50 12)
      [(HeadError ''connection lost'', Inr None)]))"
  by (simp add: start_defs cycle_defs sample_defs Let_def)

text \<open>\<^verbatim>\<open>stop\<close> touches nothing but the subscription or the timer, and a second call
  leaves the tracker as the first left it.\<close>

lemma stop_state_idempotent: "fst (stop x (fst (stop x s))) = fst (stop x s)"
  by (simp add: stop_def isSocketBasedProvider_def)

text \<open>
  Claim C5 on the code: on a tracker that was constructed and never observed the field
  \<open>observable\<close> is \<^verbatim>\<open>false\<close>, and \<^verbatim>\<open>stop()\<close> raises a TypeError at
  \<^verbatim>\<open>this.observable.unsubscribe()\<close>, after clearing the timer or unsubscribing, on the
  first call and on the second, whatever an Observable's \<^verbatim>\<open>unsubscribe\<close> would do.
\<close>

theorem stop_raises_before_observe:
  "stop x (constructor ''HttpProvider'' 50 12) =
     (constructor ''HttpProvider'' 50 12, [ClearInterval], Some TypeError) \<and>
   stop x (fst (stop x (constructor ''HttpProvider'' 50 12))) =
     (constructor ''HttpProvider'' 50 12, [ClearInterval], Some TypeError) \<and>
   stop x (constructor ''WebsocketProvider'' 50 12) =
     (constructor ''WebsocketProvider'' 50 12, [Unsubscribe], Some TypeError)"
  by (simp add: stop_def start_defs)


end
